theory Spec2Isabelle
  imports Main "HOL-Library.Word"
begin

section \<open>Solidity values and failures\<close>

type_synonym address = "160 word"
type_synonym bytes32 = "256 word"
type_synonym uint256 = "256 word"
type_synonym uint64 = "64 word"
type_synonym uint8 = "8 word"

text \<open>
  A failed \<open>require\<close> reverts the whole call with its reason string; an out-of-range array
  read or an unsigned underflow reverts with a panic. Either way the call leaves no state
  behind, so a failing call returns only the error and the caller keeps the state it had.
\<close>

datatype error = Revert string | Panic

text \<open>
  The error kinds of the specification, read off the reason strings of the contracts.
\<close>

definition state_conflict :: "error \<Rightarrow> bool" where
  "state_conflict e =
     (e \<in> set [Revert ''Already registered'', Revert ''Already revoked'',
               Revert ''Nullifier already used'',
               Revert ''Nullifier already used for this event'',
               Revert ''Nullifier already used for event'',
               Revert ''Nullifier used for event''])"

definition authorization_failure :: "error \<Rightarrow> bool" where
  "authorization_failure e =
     (e \<in> set [Revert ''Not owner'', Revert ''Not authorized issuer'',
               Revert ''Not authorized updater''])"

definition freshness_failure :: "error \<Rightarrow> bool" where
  "freshness_failure e =
     (e \<in> set [Revert ''Invalid registry root'', Revert ''Invalid revocation root'',
               Revert ''Event ID mismatch''])"

section \<open>MPassRegistryV2\<close>

record CredentialRoots =
  registryRoot :: bytes32
  revocationRoot :: bytes32
  updatedAt :: uint64

datatype registry_event =
    RootsUpdated bytes32 bytes32 uint64
  | NullifierUsed bytes32 address
  | EventNullifierUsed uint256 bytes32 address
  | CredentialRegistered bytes32 address
  | CredentialRevoked bytes32 address
  | IssuerAdded address
  | IssuerRemoved address

text \<open>
  The storage of the contract. A Solidity mapping is a total function whose default is
  \<open>False\<close>; \<open>emitted\<close> is the log of the events of the calls that did not revert.
\<close>

record MPassRegistryV2 =
  owner :: address
  authorizedIssuers :: "address \<Rightarrow> bool"
  authorizedUpdaters :: "address \<Rightarrow> bool"
  roots :: CredentialRoots
  nullifierUsed :: "bytes32 \<Rightarrow> bool"
  eventNullifierUsed :: "uint256 \<Rightarrow> bytes32 \<Rightarrow> bool"
  credentialExists :: "bytes32 \<Rightarrow> bool"
  credentialRevoked :: "bytes32 \<Rightarrow> bool"
  emitted :: "registry_event list"

text \<open>The constructor; \<open>sender\<close> is \<open>msg.sender\<close> here and in every function below.\<close>

definition constructor :: "address \<Rightarrow> MPassRegistryV2" where
  "constructor sender =
     \<lparr> owner = sender,
       authorizedIssuers = (\<lambda>_. False)(sender := True),
       authorizedUpdaters = (\<lambda>_. False)(sender := True),
       roots = \<lparr> registryRoot = 0, revocationRoot = 0, updatedAt = 0 \<rparr>,
       nullifierUsed = (\<lambda>_. False),
       eventNullifierUsed = (\<lambda>_ _. False),
       credentialExists = (\<lambda>_. False),
       credentialRevoked = (\<lambda>_. False),
       emitted = [] \<rparr>"

subsection \<open>Admin functions\<close>

definition addIssuer :: "MPassRegistryV2 \<Rightarrow> address \<Rightarrow> address \<Rightarrow> error + MPassRegistryV2" where
  "addIssuer s sender issuer =
     (if sender \<noteq> owner s then Inl (Revert ''Not owner'')
      else Inr (s\<lparr> authorizedIssuers := (authorizedIssuers s)(issuer := True),
                  emitted := emitted s @ [IssuerAdded issuer] \<rparr>))"

definition removeIssuer :: "MPassRegistryV2 \<Rightarrow> address \<Rightarrow> address \<Rightarrow> error + MPassRegistryV2" where
  "removeIssuer s sender issuer =
     (if sender \<noteq> owner s then Inl (Revert ''Not owner'')
      else Inr (s\<lparr> authorizedIssuers := (authorizedIssuers s)(issuer := False),
                  emitted := emitted s @ [IssuerRemoved issuer] \<rparr>))"

definition addUpdater :: "MPassRegistryV2 \<Rightarrow> address \<Rightarrow> address \<Rightarrow> error + MPassRegistryV2" where
  "addUpdater s sender updater =
     (if sender \<noteq> owner s then Inl (Revert ''Not owner'')
      else Inr (s\<lparr> authorizedUpdaters := (authorizedUpdaters s)(updater := True) \<rparr>))"

definition removeUpdater :: "MPassRegistryV2 \<Rightarrow> address \<Rightarrow> address \<Rightarrow> error + MPassRegistryV2" where
  "removeUpdater s sender updater =
     (if sender \<noteq> owner s then Inl (Revert ''Not owner'')
      else Inr (s\<lparr> authorizedUpdaters := (authorizedUpdaters s)(updater := False) \<rparr>))"

definition transferOwnership :: "MPassRegistryV2 \<Rightarrow> address \<Rightarrow> address \<Rightarrow> error + MPassRegistryV2" where
  "transferOwnership s sender newOwner =
     (if sender \<noteq> owner s then Inl (Revert ''Not owner'')
      else if newOwner = 0 then Inl (Revert ''Invalid address'')
      else Inr (s\<lparr> owner := newOwner \<rparr>))"

subsection \<open>Root management\<close>

text \<open>\<open>timestamp\<close> is \<open>block.timestamp\<close>, truncated to 64 bits as the cast does.\<close>

definition updateRoots ::
  "MPassRegistryV2 \<Rightarrow> address \<Rightarrow> uint256 \<Rightarrow> bytes32 \<Rightarrow> bytes32 \<Rightarrow> error + MPassRegistryV2" where
  "updateRoots s sender timestamp newRegistryRoot newRevocationRoot =
     (if \<not> (authorizedUpdaters s sender \<or> authorizedIssuers s sender)
      then Inl (Revert ''Not authorized updater'')
      else Inr (s\<lparr> roots := \<lparr> registryRoot = newRegistryRoot,
                               revocationRoot = newRevocationRoot,
                               updatedAt = ucast timestamp \<rparr>,
                  emitted := emitted s @
                    [RootsUpdated newRegistryRoot newRevocationRoot (ucast timestamp)] \<rparr>))"

definition getRoots :: "MPassRegistryV2 \<Rightarrow> bytes32 \<times> bytes32 \<times> uint64" where
  "getRoots s = (registryRoot (roots s), revocationRoot (roots s), updatedAt (roots s))"

subsection \<open>Credential management\<close>

definition registerCredential ::
  "MPassRegistryV2 \<Rightarrow> address \<Rightarrow> bytes32 \<Rightarrow> error + MPassRegistryV2" where
  "registerCredential s sender commitment =
     (if \<not> authorizedIssuers s sender then Inl (Revert ''Not authorized issuer'')
      else if credentialExists s commitment then Inl (Revert ''Already registered'')
      else Inr (s\<lparr> credentialExists := (credentialExists s)(commitment := True),
                  emitted := emitted s @ [CredentialRegistered commitment sender] \<rparr>))"

definition revokeCredential ::
  "MPassRegistryV2 \<Rightarrow> address \<Rightarrow> bytes32 \<Rightarrow> error + MPassRegistryV2" where
  "revokeCredential s sender commitment =
     (if \<not> authorizedIssuers s sender then Inl (Revert ''Not authorized issuer'')
      else if \<not> credentialExists s commitment then Inl (Revert ''Not registered'')
      else if credentialRevoked s commitment then Inl (Revert ''Already revoked'')
      else Inr (s\<lparr> credentialRevoked := (credentialRevoked s)(commitment := True),
                  emitted := emitted s @ [CredentialRevoked commitment sender] \<rparr>))"

definition isCredentialValid :: "MPassRegistryV2 \<Rightarrow> bytes32 \<Rightarrow> bool" where
  "isCredentialValid s commitment =
     (credentialExists s commitment \<and> \<not> credentialRevoked s commitment)"

subsection \<open>Nullifier management\<close>

definition useNullifier :: "MPassRegistryV2 \<Rightarrow> address \<Rightarrow> bytes32 \<Rightarrow> error + MPassRegistryV2" where
  "useNullifier s sender nullifier =
     (if nullifierUsed s nullifier then Inl (Revert ''Nullifier already used'')
      else Inr (s\<lparr> nullifierUsed := (nullifierUsed s)(nullifier := True),
                  emitted := emitted s @ [NullifierUsed nullifier sender] \<rparr>))"

definition useEventNullifier ::
  "MPassRegistryV2 \<Rightarrow> address \<Rightarrow> uint256 \<Rightarrow> bytes32 \<Rightarrow> error + MPassRegistryV2" where
  "useEventNullifier s sender eventId nullifier =
     (if eventNullifierUsed s eventId nullifier
      then Inl (Revert ''Nullifier already used for this event'')
      else Inr (s\<lparr> eventNullifierUsed :=
                    (eventNullifierUsed s)
                      (eventId := (eventNullifierUsed s eventId)(nullifier := True)),
                  emitted := emitted s @ [EventNullifierUsed eventId nullifier sender] \<rparr>))"

definition isNullifierUsed :: "MPassRegistryV2 \<Rightarrow> bytes32 \<Rightarrow> bool" where
  "isNullifierUsed s nullifier = nullifierUsed s nullifier"

definition isEventNullifierUsed :: "MPassRegistryV2 \<Rightarrow> uint256 \<Rightarrow> bytes32 \<Rightarrow> bool" where
  "isEventNullifierUsed s eventId nullifier = eventNullifierUsed s eventId nullifier"

subsection \<open>Batch operations\<close>

text \<open>
  The two \<open>for\<close> loops run over the calldata array from index 0 upward; the recursion
  takes the elements in that order and threads the storage through.
\<close>

fun batchRegister_loop :: "address \<Rightarrow> bytes32 list \<Rightarrow> MPassRegistryV2 \<Rightarrow> MPassRegistryV2" where
  "batchRegister_loop sender [] s = s"
| "batchRegister_loop sender (c # cs) s =
     batchRegister_loop sender cs
       (if \<not> credentialExists s c
        then s\<lparr> credentialExists := (credentialExists s)(c := True),
                emitted := emitted s @ [CredentialRegistered c sender] \<rparr>
        else s)"

definition batchRegisterCredentials ::
  "MPassRegistryV2 \<Rightarrow> address \<Rightarrow> bytes32 list \<Rightarrow> error + MPassRegistryV2" where
  "batchRegisterCredentials s sender commitments =
     (if \<not> authorizedIssuers s sender then Inl (Revert ''Not authorized issuer'')
      else Inr (batchRegister_loop sender commitments s))"

fun batchRevoke_loop :: "address \<Rightarrow> bytes32 list \<Rightarrow> MPassRegistryV2 \<Rightarrow> MPassRegistryV2" where
  "batchRevoke_loop sender [] s = s"
| "batchRevoke_loop sender (c # cs) s =
     batchRevoke_loop sender cs
       (if credentialExists s c \<and> \<not> credentialRevoked s c
        then s\<lparr> credentialRevoked := (credentialRevoked s)(c := True),
                emitted := emitted s @ [CredentialRevoked c sender] \<rparr>
        else s)"

definition batchRevokeCredentials ::
  "MPassRegistryV2 \<Rightarrow> address \<Rightarrow> bytes32 list \<Rightarrow> error + MPassRegistryV2" where
  "batchRevokeCredentials s sender commitments =
     (if \<not> authorizedIssuers s sender then Inl (Revert ''Not authorized issuer'')
      else Inr (batchRevoke_loop sender commitments s))"

subsection \<open>Histories of the registry\<close>

text \<open>
  Every state-changing external function of the contract, as a call. A transaction is a
  caller, a block timestamp and a call; a transaction whose call reverts leaves the storage
  as it was. The states reachable from \<open>s\<close> are the \<open>run s txs\<close>. Calls made by other
  contracts (the verification gateway among them) are calls of this list with that
  contract's address as the caller.
\<close>

datatype registry_call =
    AddIssuer address
  | RemoveIssuer address
  | AddUpdater address
  | RemoveUpdater address
  | TransferOwnership address
  | UpdateRoots bytes32 bytes32
  | RegisterCredential bytes32
  | RevokeCredential bytes32
  | UseNullifier bytes32
  | UseEventNullifier uint256 bytes32
  | BatchRegisterCredentials "bytes32 list"
  | BatchRevokeCredentials "bytes32 list"

fun exec :: "MPassRegistryV2 \<Rightarrow> address \<Rightarrow> uint256 \<Rightarrow> registry_call \<Rightarrow> error + MPassRegistryV2" where
  "exec s sender t (AddIssuer a) = addIssuer s sender a"
| "exec s sender t (RemoveIssuer a) = removeIssuer s sender a"
| "exec s sender t (AddUpdater a) = addUpdater s sender a"
| "exec s sender t (RemoveUpdater a) = removeUpdater s sender a"
| "exec s sender t (TransferOwnership a) = transferOwnership s sender a"
| "exec s sender t (UpdateRoots r v) = updateRoots s sender t r v"
| "exec s sender t (RegisterCredential c) = registerCredential s sender c"
| "exec s sender t (RevokeCredential c) = revokeCredential s sender c"
| "exec s sender t (UseNullifier n) = useNullifier s sender n"
| "exec s sender t (UseEventNullifier e n) = useEventNullifier s sender e n"
| "exec s sender t (BatchRegisterCredentials cs) = batchRegisterCredentials s sender cs"
| "exec s sender t (BatchRevokeCredentials cs) = batchRevokeCredentials s sender cs"

definition transact :: "MPassRegistryV2 \<Rightarrow> address \<times> uint256 \<times> registry_call \<Rightarrow> MPassRegistryV2" where
  "transact s tx =
     (case tx of (sender, t, call) \<Rightarrow>
        (case exec s sender t call of Inl _ \<Rightarrow> s | Inr s' \<Rightarrow> s'))"

fun run :: "MPassRegistryV2 \<Rightarrow> (address \<times> uint256 \<times> registry_call) list \<Rightarrow> MPassRegistryV2" where
  "run s [] = s"
| "run s (tx # txs) = run (transact s tx) txs"

section \<open>MPassVerifierV2\<close>

record ProofResult =
  valid :: bool
  nullifier :: bytes32
  blindedCommitment :: bytes32

datatype verifier_event = ProofVerified address uint8 bytes32 uint256

text \<open>
  The storage of the gateway. \<open>registry\<close> is the address of the registry contract; the
  functions below take the storage of the contract at that address as a separate argument.
  The contract's \<open>owner\<close> is named \<open>verifierOwner\<close> here, the registry having a field of
  the same name.
\<close>

record MPassVerifierV2 =
  registry :: address
  verifierOwner :: address
  ageVerifier :: address
  identityVerifier :: address
  passportVerifier :: address
  jurisdictionVerifier :: address
  accreditedVerifier :: address
  verified :: "verifier_event list"

definition verifierConstructor :: "address \<Rightarrow> address \<Rightarrow> MPassVerifierV2" where
  "verifierConstructor sender registryAddress =
     \<lparr> registry = registryAddress, verifierOwner = sender, ageVerifier = 0,
       identityVerifier = 0, passportVerifier = 0, jurisdictionVerifier = 0,
       accreditedVerifier = 0, verified = [] \<rparr>"

definition setVerifiers ::
  "MPassVerifierV2 \<Rightarrow> address \<Rightarrow> address \<Rightarrow> address \<Rightarrow> address \<Rightarrow> address \<Rightarrow> address
     \<Rightarrow> error + MPassVerifierV2" where
  "setVerifiers v sender age identity passport jurisdiction accredited =
     (if sender \<noteq> verifierOwner v then Inl (Revert ''Not owner'')
      else Inr (v\<lparr> ageVerifier := age, identityVerifier := identity,
                  passportVerifier := passport, jurisdictionVerifier := jurisdiction,
                  accreditedVerifier := accredited \<rparr>))"

definition setRegistry :: "MPassVerifierV2 \<Rightarrow> address \<Rightarrow> address \<Rightarrow> error + MPassVerifierV2" where
  "setRegistry v sender registryAddress =
     (if sender \<noteq> verifierOwner v then Inl (Revert ''Not owner'')
      else Inr (v\<lparr> registry := registryAddress \<rparr>))"

definition verifierTransferOwnership ::
  "MPassVerifierV2 \<Rightarrow> address \<Rightarrow> address \<Rightarrow> error + MPassVerifierV2" where
  "verifierTransferOwnership v sender newOwner =
     (if sender \<noteq> verifierOwner v then Inl (Revert ''Not owner'')
      else if newOwner = 0 then Inl (Revert ''Invalid address'')
      else Inr (v\<lparr> verifierOwner := newOwner \<rparr>))"

subsection \<open>Decoding a proof\<close>

type_synonym bytes = "8 word list"

text \<open>
  A decoded Groth16 proof: the points \<open>a\<close>, \<open>b\<close>, \<open>c\<close> and the public inputs.
\<close>

type_synonym groth16 =
  "(uint256 \<times> uint256) \<times> ((uint256 \<times> uint256) \<times> (uint256 \<times> uint256)) \<times> (uint256 \<times> uint256)
   \<times> uint256 list"

text \<open>\<open>uint256(bytes32(proof[i:i + 32]))\<close>: thirty-two bytes, the first the most significant.\<close>

definition bytes32_at :: "bytes \<Rightarrow> nat \<Rightarrow> uint256" where
  "bytes32_at proof i = word_rcat (take 32 (drop i proof))"

definition decodeProof :: "bytes \<Rightarrow> error + groth16" where
  "decodeProof proof =
     (if length proof < 256 then Inl (Revert ''Proof too short'')
      else
        let a = (bytes32_at proof 0, bytes32_at proof 32);
            b = ((bytes32_at proof 64, bytes32_at proof 96),
                 (bytes32_at proof 128, bytes32_at proof 160));
            c = (bytes32_at proof 192, bytes32_at proof 224);
            inputsLength = (length proof - 256) div 32;
            inputs = map (\<lambda>i. bytes32_at proof (256 + i * 32)) [0..<inputsLength]
        in Inr (a, b, c, inputs))"

subsection \<open>The proof oracle\<close>

text \<open>
  The Groth16 verifier contracts are not part of the engine: \<open>staticcall\<close> is the
  environment's answer to the low-level call \<open>verifier.staticcall(verifyProof(a, b, c,
  inputs))\<close>, a success flag and the returned bytes.
\<close>

type_synonym staticcall = "address \<Rightarrow> groth16 \<Rightarrow> bool \<times> bytes"

text \<open>
  \<open>abi.decode(result, (bool))\<close> reverts on fewer than 32 bytes and on a word other than
  0 and 1.
\<close>

definition abi_decode_bool :: "bytes \<Rightarrow> error + bool" where
  "abi_decode_bool result =
     (if length result < 32 then Inl (Revert [])
      else if bytes32_at result 0 = 0 then Inr False
      else if bytes32_at result 0 = 1 then Inr True
      else Inl (Revert []))"

definition verifyGroth16 :: "staticcall \<Rightarrow> address \<Rightarrow> groth16 \<Rightarrow> error + bool" where
  "verifyGroth16 env verifier pf =
     (case env verifier pf of (success, result) \<Rightarrow>
        if \<not> success \<or> length result = 0 then Inr False
        else abi_decode_bool result)"

subsection \<open>Verification functions\<close>

text \<open>
  \<open>verifyAgeWithNullifier\<close> up to the extraction of the nullifier and the blinded
  commitment: the verifier address check, the decoding, the length and minimum-age checks,
  the comparison with the registry's current roots and with the caller's \<open>eventId\<close>, and
  the proof oracle. It reads the registry (\<open>getRoots\<close>) and writes nothing.
\<close>

definition verifyAge_checks ::
  "staticcall \<Rightarrow> MPassVerifierV2 \<Rightarrow> MPassRegistryV2 \<Rightarrow> uint8 \<Rightarrow> uint256 \<Rightarrow> bytes
     \<Rightarrow> error + bytes32 \<times> bytes32" where
  "verifyAge_checks env v r minAge eventId proof =
     (if ageVerifier v = 0 then Inl (Revert ''Age verifier not set'')
      else case decodeProof proof of
        Inl e \<Rightarrow> Inl e
      | Inr (a, b, c, publicInputs) \<Rightarrow>
          if length publicInputs < 7 then Inl (Revert ''Invalid public inputs'')
          else if publicInputs ! 0 < ucast minAge then Inl (Revert ''Age below minimum'')
          else case getRoots r of (registryRoot', revocationRoot', _) \<Rightarrow>
            if publicInputs ! 4 \<noteq> registryRoot' then Inl (Revert ''Invalid registry root'')
            else if publicInputs ! 5 \<noteq> revocationRoot'
              then Inl (Revert ''Invalid revocation root'')
            else if publicInputs ! 6 \<noteq> eventId then Inl (Revert ''Event ID mismatch'')
            else case verifyGroth16 env (ageVerifier v) (a, b, c, publicInputs) of
              Inl e \<Rightarrow> Inl e
            | Inr ok \<Rightarrow>
                if \<not> ok then Inl (Revert ''Invalid proof'')
                else Inr (publicInputs ! (length publicInputs - 2),
                          publicInputs ! (length publicInputs - 1)))"

text \<open>
  The whole function: the checks, then the nullifier is checked and consumed in the
  registry, the caller being this contract (\<open>this\<close>), and the event is emitted.
\<close>

definition verifyAgeWithNullifier ::
  "staticcall \<Rightarrow> address \<Rightarrow> MPassVerifierV2 \<Rightarrow> MPassRegistryV2 \<Rightarrow> address \<Rightarrow> uint8 \<Rightarrow> uint256
     \<Rightarrow> bytes \<Rightarrow> error + ProofResult \<times> MPassVerifierV2 \<times> MPassRegistryV2" where
  "verifyAgeWithNullifier env this v r sender minAge eventId proof =
     (case verifyAge_checks env v r minAge eventId proof of
        Inl e \<Rightarrow> Inl e
      | Inr (nullifier', blindedCommitment') \<Rightarrow>
          (case (if eventId = 0
                 then if isNullifierUsed r nullifier'
                      then Inl (Revert ''Nullifier already used'')
                      else useNullifier r this nullifier'
                 else if isEventNullifierUsed r eventId nullifier'
                      then Inl (Revert ''Nullifier already used for event'')
                      else useEventNullifier r this eventId nullifier') of
             Inl e \<Rightarrow> Inl e
           | Inr r' \<Rightarrow>
               Inr (\<lparr> valid = True, nullifier = nullifier',
                      blindedCommitment = blindedCommitment' \<rparr>,
                    v\<lparr> verified := verified v @ [ProofVerified sender 0 nullifier' eventId] \<rparr>,
                    r')))"

text \<open>
  \<open>verifyPassportDisclosure\<close> up to the extraction of its outputs. The public inputs are
  indexed without a length check, so a short array panics: at index 0 and 1 when the roots
  are read, and in \<open>publicInputs.length - 5\<close> when the outputs are.
\<close>

definition verifyPassport_checks ::
  "staticcall \<Rightarrow> MPassVerifierV2 \<Rightarrow> MPassRegistryV2 \<Rightarrow> bytes
     \<Rightarrow> error + bytes32 \<times> bytes32 \<times> uint256 \<times> uint256 \<times> uint256" where
  "verifyPassport_checks env v r proof =
     (if passportVerifier v = 0 then Inl (Revert ''Passport verifier not set'')
      else case decodeProof proof of
        Inl e \<Rightarrow> Inl e
      | Inr (a, b, c, publicInputs) \<Rightarrow>
          case getRoots r of (registryRoot', revocationRoot', _) \<Rightarrow>
            if length publicInputs < 1 then Inl Panic
            else if publicInputs ! 0 \<noteq> registryRoot' then Inl (Revert ''Invalid registry root'')
            else if length publicInputs < 2 then Inl Panic
            else if publicInputs ! 1 \<noteq> revocationRoot'
              then Inl (Revert ''Invalid revocation root'')
            else case verifyGroth16 env (passportVerifier v) (a, b, c, publicInputs) of
              Inl e \<Rightarrow> Inl e
            | Inr ok \<Rightarrow>
                if \<not> ok then Inl (Revert ''Invalid proof'')
                else if length publicInputs < 5 then Inl Panic
                else Inr (publicInputs ! (length publicInputs - 5),
                          publicInputs ! (length publicInputs - 4),
                          publicInputs ! (length publicInputs - 3),
                          publicInputs ! (length publicInputs - 2),
                          publicInputs ! (length publicInputs - 1)))"

definition verifyPassportDisclosure ::
  "staticcall \<Rightarrow> address \<Rightarrow> MPassVerifierV2 \<Rightarrow> MPassRegistryV2 \<Rightarrow> address \<Rightarrow> uint256 \<Rightarrow> bytes
     \<Rightarrow> error + (ProofResult \<times> uint256 \<times> uint256 \<times> uint256) \<times> MPassVerifierV2 \<times> MPassRegistryV2"
  where
  "verifyPassportDisclosure env this v r sender eventId proof =
     (case verifyPassport_checks env v r proof of
        Inl e \<Rightarrow> Inl e
      | Inr (nullifier', commitment, disclosedNationality, disclosedAgeOver, disclosedGender) \<Rightarrow>
          (case (if eventId = 0
                 then if isNullifierUsed r nullifier'
                      then Inl (Revert ''Nullifier already used'')
                      else useNullifier r this nullifier'
                 else if isEventNullifierUsed r eventId nullifier'
                      then Inl (Revert ''Nullifier used for event'')
                      else useEventNullifier r this eventId nullifier') of
             Inl e \<Rightarrow> Inl e
           | Inr r' \<Rightarrow>
               Inr ((\<lparr> valid = True, nullifier = nullifier',
                       blindedCommitment = commitment \<rparr>,
                     disclosedNationality, disclosedAgeOver, disclosedGender),
                    v\<lparr> verified := verified v @ [ProofVerified sender 1 nullifier' eventId] \<rparr>,
                    r')))"

text \<open>
  \<open>verifyProofOnly\<close> is a \<open>view\<close> function: it has a result and no storage to return.
\<close>

definition verifyProofOnly :: "staticcall \<Rightarrow> address \<Rightarrow> bytes \<Rightarrow> error + bool" where
  "verifyProofOnly env verifier proof =
     (case decodeProof proof of
        Inl e \<Rightarrow> Inl e
      | Inr pf \<Rightarrow> verifyGroth16 env verifier pf)"

section \<open>MPassAgeVerifier\<close>

datatype age_event =
    AgeCredentialRegistered uint256 address
  | AgeVerified uint256 uint256 uint256
  | NullifierConsumed uint256

text \<open>
  The storage of the contract; its mapping \<open>nullifierUsed\<close> is named \<open>ageNullifierUsed\<close>
  here, the registry having a field of the same name, and its \<open>registerCredential\<close>
  is \<open>ageRegisterCredential\<close>. The immutable \<open>verifier\<close> is the
  generated Groth16 verifier, which is not part of the engine: its \<open>verifyProof\<close> is the
  parameter \<open>groth16\<close> of the functions below. \<open>_pubSignals\<close> is a \<open>uint[8]\<close>: a call
  with another number of signals does not decode.
\<close>

record MPassAgeVerifier =
  ageNullifierUsed :: "uint256 \<Rightarrow> bool"
  registeredCredentials :: "uint256 \<Rightarrow> bool"
  ageEmitted :: "age_event list"

type_synonym groth16Verifier =
  "uint256 \<times> uint256 \<Rightarrow> (uint256 \<times> uint256) \<times> (uint256 \<times> uint256) \<Rightarrow> uint256 \<times> uint256
     \<Rightarrow> uint256 list \<Rightarrow> bool"

definition ageRegisterCredential ::
  "MPassAgeVerifier \<Rightarrow> address \<Rightarrow> uint256 \<Rightarrow> error + MPassAgeVerifier" where
  "ageRegisterCredential s sender commitment =
     (if registeredCredentials s commitment then Inl (Revert ''Already registered'')
      else Inr (s\<lparr> registeredCredentials := (registeredCredentials s)(commitment := True),
                  ageEmitted := ageEmitted s @ [AgeCredentialRegistered commitment sender] \<rparr>))"

definition verifyAgeProof ::
  "groth16Verifier \<Rightarrow> MPassAgeVerifier \<Rightarrow> uint256 \<times> uint256
     \<Rightarrow> (uint256 \<times> uint256) \<times> (uint256 \<times> uint256) \<Rightarrow> uint256 \<times> uint256 \<Rightarrow> uint256 list
     \<Rightarrow> error + bool \<times> MPassAgeVerifier" where
  "verifyAgeProof groth16 s pA pB pC pubSignals =
     (if length pubSignals \<noteq> 8 then Inl (Revert [])
      else
        let nullifier' = pubSignals ! 1;
            ageValid = pubSignals ! 2
        in if ageNullifierUsed s nullifier' then Inl (Revert ''Nullifier already used'')
           else
             let ok = groth16 pA pB pC pubSignals;
                 s' = (if ok
                       then s\<lparr> ageNullifierUsed := (ageNullifierUsed s)(nullifier' := True),
                               ageEmitted := ageEmitted s @
                                 [NullifierConsumed nullifier',
                                  AgeVerified nullifier' (pubSignals ! 6) (pubSignals ! 7)] \<rparr>
                       else s)
             in if ageValid \<noteq> 1 then Inl (Revert ''Age requirement not met'')
                else Inr (ok, s'))"

text \<open>The \<open>view\<close> function \<open>verifyProofOnly\<close> of this contract.\<close>

definition ageVerifyProofOnly ::
  "groth16Verifier \<Rightarrow> uint256 \<times> uint256 \<Rightarrow> (uint256 \<times> uint256) \<times> (uint256 \<times> uint256)
     \<Rightarrow> uint256 \<times> uint256 \<Rightarrow> uint256 list \<Rightarrow> error + bool" where
  "ageVerifyProofOnly groth16 pA pB pC pubSignals =
     (if length pubSignals \<noteq> 8 then Inl (Revert [])
      else Inr (groth16 pA pB pC pubSignals))"

section \<open>Circuits\<close>

text \<open>
  A signal is an element of the BN254 scalar field, whose modulus is the \<open>FIELD_PRIME\<close> of
  the proof generator: the integer in \<open>[0, FIELD_PRIME)\<close>, with the arithmetic of the
  constraints taken modulo the prime.
\<close>

definition FIELD_PRIME :: int where
  "FIELD_PRIME =
     21888242871839275222246405745257275088548364400416034343698204186575808495617"

type_synonym signal = int

definition fadd :: "signal \<Rightarrow> signal \<Rightarrow> signal" where
  "fadd a b = (a + b) mod FIELD_PRIME"

definition fsub :: "signal \<Rightarrow> signal \<Rightarrow> signal" where
  "fsub a b = (a - b) mod FIELD_PRIME"

definition fmul :: "signal \<Rightarrow> signal \<Rightarrow> signal" where
  "fmul a b = (a * b) mod FIELD_PRIME"

subsection \<open>The templates of circomlib\<close>

text \<open>
  The circuits include templates of the circomlib package, which is a dependency and not
  among the sources. They are taken as circomlib defines them: \<open>IsZero\<close> outputs 1 on the
  zero of the field and 0 elsewhere; \<open>IsEqual\<close> is \<open>IsZero\<close> of the difference;
  \<open>Mux1\<close> outputs \<open>(c[1] - c[0]) * s + c[0]\<close>; \<open>Num2Bits(n)\<close> outputs the \<open>n\<close> low
  bits of its input, least significant first, under the constraint that they sum up to
  the input, which an input of more than \<open>n\<close> bits does not satisfy (\<open>None\<close>: the circuit
  has no witness). The hash \<open>Poseidon\<close> is a parameter \<open>H\<close> of every template that uses
  it, applied to the list of its inputs.
\<close>

definition IsZero :: "signal \<Rightarrow> signal" where
  "IsZero x = (if x mod FIELD_PRIME = 0 then 1 else 0)"

definition IsEqual :: "signal \<Rightarrow> signal \<Rightarrow> signal" where
  "IsEqual a b = IsZero (fsub b a)"

definition Mux1 :: "signal \<Rightarrow> signal \<Rightarrow> signal \<Rightarrow> signal" where
  "Mux1 c0 c1 s = fadd (fmul (fsub c1 c0) s) c0"

definition Num2Bits :: "nat \<Rightarrow> signal \<Rightarrow> signal list option" where
  "Num2Bits n x =
     (if x mod FIELD_PRIME < 2 ^ n
      then Some (map (\<lambda>i. (x mod FIELD_PRIME) div 2 ^ i mod 2) [0..<n])
      else None)"

subsection \<open>lib/merkle.circom\<close>

text \<open>
  \<open>MerkleTreeInclusionProof(levels)\<close>: the loop over the levels, from the leaf upward. At
  each level the path index is constrained to be binary, the two-fold multiplexer orders
  the running hash and the sibling, and the pair is hashed. The arrays have \<open>levels\<close>
  elements each.
\<close>

fun MerkleTreeInclusionProof ::
  "(signal list \<Rightarrow> signal) \<Rightarrow> signal \<Rightarrow> signal list \<Rightarrow> signal list \<Rightarrow> signal option" where
  "MerkleTreeInclusionProof H levelHash [] [] = Some levelHash"
| "MerkleTreeInclusionProof H levelHash (pathElement # pathElements) (pathIndex # pathIndices) =
     (if fmul pathIndex (fsub 1 pathIndex) \<noteq> 0 then None
      else MerkleTreeInclusionProof H
             (H [Mux1 levelHash pathElement pathIndex, Mux1 pathElement levelHash pathIndex])
             pathElements pathIndices)"
| "MerkleTreeInclusionProof H levelHash _ _ = None"

definition MerkleTreeVerifier ::
  "(signal list \<Rightarrow> signal) \<Rightarrow> signal \<Rightarrow> signal list \<Rightarrow> signal list \<Rightarrow> signal
     \<Rightarrow> signal option" where
  "MerkleTreeVerifier H leaf pathElements pathIndices root =
     (case MerkleTreeInclusionProof H leaf pathElements pathIndices of
        None \<Rightarrow> None
      | Some computed \<Rightarrow> Some (IsEqual computed root))"

definition SparseMerkleTreeNonInclusion ::
  "(signal list \<Rightarrow> signal) \<Rightarrow> nat \<Rightarrow> signal \<Rightarrow> signal \<Rightarrow> signal list \<Rightarrow> signal \<Rightarrow> signal
     \<Rightarrow> signal \<Rightarrow> signal option" where
  "SparseMerkleTreeNonInclusion H levels key root siblings isOld0 oldKey oldValue =
     (if length siblings \<noteq> levels then None
      else case Num2Bits levels key of
        None \<Rightarrow> None
      | Some keyBits \<Rightarrow>
          let oldLeaf = H [oldKey, oldValue];
              leaf = Mux1 oldLeaf 0 isOld0
          in case MerkleTreeInclusionProof H leaf siblings keyBits of
               None \<Rightarrow> None
             | Some computed \<Rightarrow>
                 let rootCheck = IsEqual computed root;
                     keyNotEqual = IsEqual key oldKey;
                     keyDifferent = fsub 1 keyNotEqual;
                     validNonMembership = fadd isOld0 (fmul (fsub 1 isOld0) keyDifferent)
                 in Some (fmul rootCheck validNonMembership))"

subsection \<open>lib/nullifier.circom\<close>



definition TimeBoundNullifier ::
  "(signal list \<Rightarrow> signal) \<Rightarrow> signal \<Rightarrow> signal \<Rightarrow> signal \<Rightarrow> signal" where
  "TimeBoundNullifier H secret credentialCommitment epoch =
     H [secret, credentialCommitment, epoch]"

subsection \<open>The nullifier of age\_proof\_v2.circom and identity\_proof.circom\<close>



section \<open>The gateway's entry points and the ledger as they read it\<close>

text \<open>
  Step 5 of both entry points reads the ledger through \<open>isNullifierUsed\<close> when \<open>eventId\<close>
  is 0 and through \<open>isEventNullifierUsed\<close> otherwise: the consumption state of a nullifier
  in a scope.
\<close>

definition consumed :: "MPassRegistryV2 \<Rightarrow> uint256 \<Rightarrow> bytes32 \<Rightarrow> bool" where
  "consumed r eventId n =
     (if eventId = 0 then isNullifierUsed r n else isEventNullifierUsed r eventId n)"

text \<open>
  The two entry points that consume a nullifier, as calls: the scope of a call is its
  \<open>eventId\<close> argument, the nullifier it carries is the one its checks extract, and its
  outcome is the \<open>ProofResult\<close> with the storage of both contracts.
\<close>

datatype gateway_call = VerifyAge uint8 uint256 bytes | VerifyPassport uint256 bytes

fun scope :: "gateway_call \<Rightarrow> uint256" where
  "scope (VerifyAge minAge eventId proof) = eventId"
| "scope (VerifyPassport eventId proof) = eventId"

fun carried ::
  "staticcall \<Rightarrow> MPassVerifierV2 \<Rightarrow> MPassRegistryV2 \<Rightarrow> gateway_call \<Rightarrow> error + bytes32" where
  "carried env v r (VerifyAge minAge eventId proof) =
     (case verifyAge_checks env v r minAge eventId proof of
        Inl e \<Rightarrow> Inl e | Inr (n, _) \<Rightarrow> Inr n)"
| "carried env v r (VerifyPassport eventId proof) =
     (case verifyPassport_checks env v r proof of
        Inl e \<Rightarrow> Inl e | Inr (n, _) \<Rightarrow> Inr n)"

fun gateway ::
  "staticcall \<Rightarrow> address \<Rightarrow> MPassVerifierV2 \<Rightarrow> MPassRegistryV2 \<Rightarrow> address \<Rightarrow> gateway_call
     \<Rightarrow> error + ProofResult \<times> MPassVerifierV2 \<times> MPassRegistryV2" where
  "gateway env this v r sender (VerifyAge minAge eventId proof) =
     verifyAgeWithNullifier env this v r sender minAge eventId proof"
| "gateway env this v r sender (VerifyPassport eventId proof) =
     (case verifyPassportDisclosure env this v r sender eventId proof of
        Inl e \<Rightarrow> Inl e
      | Inr ((result, _), v', r') \<Rightarrow> Inr (result, v', r'))"

section \<open>Invariants\<close>


section \<open>The batch operations in the specification's words\<close>

text \<open>
  The single-item operation applied to the elements in order, an element already in the
  target state being skipped: an already registered one for registration, an already
  revoked or never registered one for revocation.
\<close>

fun batchRegister_spec :: "address \<Rightarrow> bytes32 list \<Rightarrow> MPassRegistryV2 \<Rightarrow> error + MPassRegistryV2" where
  "batchRegister_spec sender [] s = Inr s"
| "batchRegister_spec sender (c # cs) s =
     (if credentialExists s c then batchRegister_spec sender cs s
      else case registerCredential s sender c of
             Inl e \<Rightarrow> Inl e
           | Inr s' \<Rightarrow> batchRegister_spec sender cs s')"

fun batchRevoke_spec :: "address \<Rightarrow> bytes32 list \<Rightarrow> MPassRegistryV2 \<Rightarrow> error + MPassRegistryV2" where
  "batchRevoke_spec sender [] s = Inr s"
| "batchRevoke_spec sender (c # cs) s =
     (if credentialRevoked s c \<or> \<not> credentialExists s c then batchRevoke_spec sender cs s
      else case revokeCredential s sender c of
             Inl e \<Rightarrow> Inl e
           | Inr s' \<Rightarrow> batchRevoke_spec sender cs s')"

section \<open>A concrete deployment\<close>

text \<open>
  Values for concrete runs: small integers as 32-byte ABI words, an oracle that accepts
  every proof, a gateway with its age and passport verifiers set, a registry whose roots
  are 5 and 6, and an age proof whose public inputs are
  \<open>[minAge = 18, year, month, day, registryRoot = 5, revocationRoot = 6, eventId = 1,
  nullifier = 9, blindedCommitment = 10]\<close>.
\<close>

definition abi_words :: "8 word list \<Rightarrow> bytes" where
  "abi_words ws = concat (map (\<lambda>w. replicate 31 0 @ [w]) ws)"

definition accepting :: staticcall where
  "accepting verifier pf = (True, abi_words [1])"

definition gateway0 :: MPassVerifierV2 where
  "gateway0 = (verifierConstructor 1 50)\<lparr> ageVerifier := 9, passportVerifier := 10 \<rparr>"

definition registry0 :: MPassRegistryV2 where
  "registry0 = run (constructor 1) [(1, 100, UpdateRoots 5 6)]"

definition age_proof :: bytes where
  "age_proof = replicate 256 0 @ abi_words [18, 0, 0, 0, 5, 6, 1, 9, 10]"

text \<open>
  A passport proof whose public inputs are \<open>[registryRoot = 5, revocationRoot = 6, 1,
  nullifier = 9, commitment = 10, nationality = 124, ageOver = 18, gender = 1]\<close>; the
  third input stands where the identity circuit has its \<open>eventId\<close>.
\<close>

definition passport_proof :: bytes where
  "passport_proof = replicate 256 0 @ abi_words [5, 6, 1, 9, 10, 124, 18, 1]"

text \<open>A stand-in for the hash in concrete runs.\<close>

definition toy_hash :: "signal list \<Rightarrow> signal" where
  "toy_hash xs = (foldl (\<lambda>a x. 31 * a + x + 7) 1 xs) mod FIELD_PRIME"

section \<open>The gateway and the registries it can point to\<close>

text \<open>
  The gateway calls the registry at the address in its \<open>registry\<close> field, which
  \<open>setRegistry\<close> changes. A world is the storage of the gateway together with the
  storage of the registry contracts deployed, by address. An entry point run in a world
  reads and writes the registry its \<open>registry\<close> field names at that moment.
\<close>

record world =
  gatewayStorage :: MPassVerifierV2
  registryAt :: "address \<Rightarrow> MPassRegistryV2 option"

text \<open>
  With no contract at the address, the call \<open>registry.getRoots()\<close> reverts without a
  reason; the checks that come before it in the function still fail first.
\<close>

fun no_registry :: "MPassVerifierV2 \<Rightarrow> gateway_call \<Rightarrow> error" where
  "no_registry v (VerifyAge minAge eventId proof) =
     (if ageVerifier v = 0 then Revert ''Age verifier not set''
      else case decodeProof proof of
        Inl e \<Rightarrow> e
      | Inr (a, b, c, publicInputs) \<Rightarrow>
          if length publicInputs < 7 then Revert ''Invalid public inputs''
          else if publicInputs ! 0 < ucast minAge then Revert ''Age below minimum''
          else Revert [])"
| "no_registry v (VerifyPassport eventId proof) =
     (if passportVerifier v = 0 then Revert ''Passport verifier not set''
      else case decodeProof proof of
        Inl e \<Rightarrow> e
      | Inr _ \<Rightarrow> Revert [])"

definition gateway_in ::
  "staticcall \<Rightarrow> address \<Rightarrow> world \<Rightarrow> address \<Rightarrow> gateway_call \<Rightarrow> error + ProofResult \<times> world"
  where
  "gateway_in env this w sender call =
     (case registryAt w (registry (gatewayStorage w)) of
        None \<Rightarrow> Inl (no_registry (gatewayStorage w) call)
      | Some r \<Rightarrow>
          (case gateway env this (gatewayStorage w) r sender call of
             Inl e \<Rightarrow> Inl e
           | Inr (result, v', r') \<Rightarrow>
               Inr (result,
                    w\<lparr> gatewayStorage := v',
                       registryAt := (registryAt w)(registry (gatewayStorage w) \<mapsto> r') \<rparr>)))"

definition carried_in :: "staticcall \<Rightarrow> world \<Rightarrow> gateway_call \<Rightarrow> error + bytes32" where
  "carried_in env w call =
     (case registryAt w (registry (gatewayStorage w)) of
        None \<Rightarrow> Inl (no_registry (gatewayStorage w) call)
      | Some r \<Rightarrow> carried env (gatewayStorage w) r call)"

text \<open>
  The transactions of a world: the deployment of a registry at an address that holds none,
  a call of a registry, the three admin functions of the gateway, and a call of an entry
  point of the gateway under the oracle of the moment. The first address of each is the
  caller (the registry's address comes first where there is one). A transaction that
  reverts leaves the world as it was; \<open>this\<close> is the address of the gateway.
\<close>

datatype world_tx =
    DeployRegistry address address
  | ToRegistry address address uint256 registry_call
  | SetVerifiers address address address address address address
  | SetRegistry address address
  | TransferGatewayOwnership address address
  | Verify staticcall address gateway_call

fun world_step :: "address \<Rightarrow> world \<Rightarrow> world_tx \<Rightarrow> world" where
  "world_step this w (DeployRegistry a sender) =
     (case registryAt w a of
        None \<Rightarrow> w\<lparr> registryAt := (registryAt w)(a \<mapsto> constructor sender) \<rparr>
      | Some _ \<Rightarrow> w)"
| "world_step this w (ToRegistry a sender t call) =
     (case registryAt w a of
        None \<Rightarrow> w
      | Some r \<Rightarrow> w\<lparr> registryAt := (registryAt w)(a \<mapsto> transact r (sender, t, call)) \<rparr>)"
| "world_step this w (SetVerifiers sender age identity passport jurisdiction accredited) =
     (case setVerifiers (gatewayStorage w) sender age identity passport jurisdiction accredited of
        Inl _ \<Rightarrow> w
      | Inr v' \<Rightarrow> w\<lparr> gatewayStorage := v' \<rparr>)"
| "world_step this w (SetRegistry sender a) =
     (case setRegistry (gatewayStorage w) sender a of
        Inl _ \<Rightarrow> w
      | Inr v' \<Rightarrow> w\<lparr> gatewayStorage := v' \<rparr>)"
| "world_step this w (TransferGatewayOwnership sender newOwner) =
     (case verifierTransferOwnership (gatewayStorage w) sender newOwner of
        Inl _ \<Rightarrow> w
      | Inr v' \<Rightarrow> w\<lparr> gatewayStorage := v' \<rparr>)"
| "world_step this w (Verify env sender call) =
     (case gateway_in env this w sender call of
        Inl _ \<Rightarrow> w
      | Inr (_, w') \<Rightarrow> w')"

fun world_run :: "address \<Rightarrow> world \<Rightarrow> world_tx list \<Rightarrow> world" where
  "world_run this w [] = w"
| "world_run this w (tx # txs) = world_run this (world_step this w tx) txs"

text \<open>The nullifier \<open>n\<close> is marked in scope \<open>e\<close> in the ledger of the registry at \<open>a\<close>.\<close>

definition marked_at :: "world \<Rightarrow> address \<Rightarrow> uint256 \<Rightarrow> bytes32 \<Rightarrow> bool" where
  "marked_at w a e n = (case registryAt w a of None \<Rightarrow> False | Some r \<Rightarrow> consumed r e n)"

text \<open>
  A world with the gateway pointing at the registry at address 50, and a second registry
  with the same roots at address 51.
\<close>

definition world0 :: world where
  "world0 = \<lparr> gatewayStorage = gateway0,
              registryAt = [50 \<mapsto> registry0, 51 \<mapsto> registry0] \<rparr>"



section \<open>Properties of the registry\<close>

lemma batchRevoke_loop_revoked:
  "credentialRevoked s c \<Longrightarrow> credentialRevoked (batchRevoke_loop sender cs s) c"
  by (induction cs arbitrary: s) auto

lemma batchRegister_loop_revoked:
  "credentialRevoked (batchRegister_loop sender cs s) c = credentialRevoked s c"
  by (induction cs arbitrary: s) auto

lemma exec_keeps_revoked:
  "exec s sender t call = Inr s' \<Longrightarrow> credentialRevoked s c \<Longrightarrow> credentialRevoked s' c"
  by (cases call)
     (auto simp: addIssuer_def removeIssuer_def addUpdater_def removeUpdater_def
        transferOwnership_def updateRoots_def registerCredential_def revokeCredential_def
        useNullifier_def useEventNullifier_def batchRegisterCredentials_def
        batchRevokeCredentials_def batchRevoke_loop_revoked batchRegister_loop_revoked
        split: if_splits)

lemma transact_keeps_revoked:
  "credentialRevoked s c \<Longrightarrow> credentialRevoked (transact s tx) c"
  by (auto simp: transact_def split: prod.splits sum.splits dest: exec_keeps_revoked)

lemma run_keeps_revoked:
  "credentialRevoked s c \<Longrightarrow> credentialRevoked (run s txs) c"
  by (induction txs arbitrary: s) (auto intro: transact_keeps_revoked)

text \<open>
  C4. Once \<open>revokeCredential c\<close> has succeeded, \<open>isCredentialValid c\<close> is false in every
  state reachable afterwards, whatever transactions follow (admin calls, root updates,
  registrations, revocations, batches, nullifier writes): no function of the contract
  clears the revoked mark.
\<close>

theorem revoked_forever:
  assumes "revokeCredential s sender c = Inr s1"
  shows "\<not> isCredentialValid (run s1 txs) c"
proof -
  from assms have "credentialRevoked s1 c"
    by (auto simp: revokeCredential_def split: if_splits)
  then have "credentialRevoked (run s1 txs) c"
    by (rule run_keeps_revoked)
  then show ?thesis
    by (simp add: isCredentialValid_def)
qed

theorem revoked_forever_witness:
  "\<not> isl (revokeCredential (run (constructor 1) [(1, 100, RegisterCredential 7)]) 1 7) \<and>
   \<not> isCredentialValid
       (run (projr (revokeCredential (run (constructor 1) [(1, 100, RegisterCredential 7)]) 1 7))
          [(1, 101, RegisterCredential 7), (1, 102, UpdateRoots 5 6),
           (1, 103, BatchRegisterCredentials [7, 8]), (2, 104, UseNullifier 9)]) 7"
proof -
  let ?s = "run (constructor 1) [(1, 100, RegisterCredential 7)]"
  have h: "revokeCredential ?s 1 7 = Inr (projr (revokeCredential ?s 1 7))"
    by (simp add: transact_def constructor_def registerCredential_def revokeCredential_def)
  have "\<not> isl (revokeCredential ?s 1 7)"
    by (simp add: transact_def constructor_def registerCredential_def revokeCredential_def)
  with revoked_forever [OF h] show ?thesis by blast
qed

lemmas registry_defs =
  addIssuer_def removeIssuer_def addUpdater_def removeUpdater_def
  transferOwnership_def updateRoots_def registerCredential_def revokeCredential_def
  useNullifier_def useEventNullifier_def batchRegisterCredentials_def
  batchRevokeCredentials_def









lemma batchRegister_loop_spec:
  "authorizedIssuers s sender \<Longrightarrow>
   batchRegister_spec sender cs s = Inr (batchRegister_loop sender cs s)"
  by (induction cs arbitrary: s) (simp_all add: registerCredential_def)

lemma batchRevoke_loop_spec:
  "authorizedIssuers s sender \<Longrightarrow>
   batchRevoke_spec sender cs s = Inr (batchRevoke_loop sender cs s)"
  by (induction cs arbitrary: s) (simp_all add: revokeCredential_def)

text \<open>
  C9. Called by an issuer, \<open>batchRegisterCredentials\<close> and \<open>batchRevokeCredentials\<close> are
  the single-item calls applied element by element, skipping the elements already in the
  target state (storage and event log untouched for them) and never failing; the
  single-item \<open>registerCredential\<close> and \<open>revokeCredential\<close> revert on those same elements.
\<close>

theorem batch_skips_single_fails:
  assumes "authorizedIssuers s sender"
  shows "batchRegisterCredentials s sender cs = batchRegister_spec sender cs s
       \<and> batchRevokeCredentials s sender ds = batchRevoke_spec sender ds s
       \<and> \<not> isl (batchRegisterCredentials s sender cs)
       \<and> \<not> isl (batchRevokeCredentials s sender ds)
       \<and> (credentialExists s c \<longrightarrow>
            registerCredential s sender c = Inl (Revert ''Already registered''))
       \<and> (credentialExists s c \<and> credentialRevoked s c \<longrightarrow>
            revokeCredential s sender c = Inl (Revert ''Already revoked''))
       \<and> (\<not> credentialExists s c \<longrightarrow>
            revokeCredential s sender c = Inl (Revert ''Not registered''))"
  using assms
  by (simp add: batchRegisterCredentials_def batchRevokeCredentials_def
        batchRegister_loop_spec batchRevoke_loop_spec registerCredential_def
        revokeCredential_def)

theorem batch_skips_single_fails_witness:
  "(let s = run (constructor 1)
              [(1, 5, RegisterCredential 7), (1, 6, RegisterCredential 8),
               (1, 7, RevokeCredential 8)]
    in authorizedIssuers s 1
     \<and> credentialExists s 7 \<and> credentialExists s 8 \<and> credentialRevoked s 8
     \<and> \<not> credentialExists s 9
     \<and> batchRegisterCredentials s 1 [7, 9, 9] = batchRegister_spec 1 [7, 9, 9] s
     \<and> \<not> isl (batchRegisterCredentials s 1 [7, 9, 9])
     \<and> credentialExists (projr (batchRegisterCredentials s 1 [7, 9, 9])) 9
     \<and> emitted (projr (batchRegisterCredentials s 1 [7, 9, 9])) = emitted s @ [CredentialRegistered 9 1]
     \<and> batchRevokeCredentials s 1 [8, 10, 7] = batchRevoke_spec 1 [8, 10, 7] s
     \<and> \<not> isl (batchRevokeCredentials s 1 [8, 10, 7])
     \<and> emitted (projr (batchRevokeCredentials s 1 [8, 10, 7])) = emitted s @ [CredentialRevoked 7 1]
     \<and> registerCredential s 1 7 = Inl (Revert ''Already registered'')
     \<and> revokeCredential s 1 8 = Inl (Revert ''Already revoked'')
     \<and> revokeCredential s 1 10 = Inl (Revert ''Not registered''))"
proof -
  let ?s = "run (constructor 1)
              [(1, 5, RegisterCredential 7), (1, 6, RegisterCredential 8),
               (1, 7, RevokeCredential 8)]"
  have a: "authorizedIssuers ?s 1"
    by (simp add: transact_def constructor_def registerCredential_def revokeCredential_def)
  have facts: "credentialExists ?s 7" "credentialExists ?s 8" "credentialRevoked ?s 8"
      "\<not> credentialExists ?s 9" "\<not> credentialExists ?s 10"
    by (simp_all add: transact_def constructor_def registerCredential_def revokeCredential_def)
  have ev1: "credentialExists (projr (batchRegisterCredentials ?s 1 [7, 9, 9])) 9"
     "emitted (projr (batchRegisterCredentials ?s 1 [7, 9, 9])) = emitted ?s @ [CredentialRegistered 9 1]"
    using a facts by (simp_all add: batchRegisterCredentials_def)
  have ev2: "emitted (projr (batchRevokeCredentials ?s 1 [8, 10, 7])) = emitted ?s @ [CredentialRevoked 7 1]"
    using a facts by (simp add: batchRevokeCredentials_def transact_def constructor_def registerCredential_def revokeCredential_def)
  from batch_skips_single_fails [OF a, of "[7, 9, 9]" "[8, 10, 7]" 7]
       batch_skips_single_fails [OF a, of "[7, 9, 9]" "[8, 10, 7]" 8]
       batch_skips_single_fails [OF a, of "[7, 9, 9]" "[8, 10, 7]" 10]
       a facts ev1 ev2
  show ?thesis
    unfolding Let_def by blast
qed

section \<open>Properties of the gateway\<close>

lemma batchRegister_loop_ledger:
  "nullifierUsed (batchRegister_loop sender cs s) = nullifierUsed s"
  "eventNullifierUsed (batchRegister_loop sender cs s) = eventNullifierUsed s"
  by (induction cs arbitrary: s) auto

lemma batchRevoke_loop_ledger:
  "nullifierUsed (batchRevoke_loop sender cs s) = nullifierUsed s"
  "eventNullifierUsed (batchRevoke_loop sender cs s) = eventNullifierUsed s"
  by (induction cs arbitrary: s) auto

lemma exec_keeps_consumed:
  "exec s sender t call = Inr s' \<Longrightarrow> consumed s e n \<Longrightarrow> consumed s' e n"
  by (cases call)
     (auto simp: registry_defs consumed_def isNullifierUsed_def isEventNullifierUsed_def
        batchRegister_loop_ledger batchRevoke_loop_ledger split: if_splits)

lemma transact_keeps_consumed: "consumed s e n \<Longrightarrow> consumed (transact s tx) e n"
  by (auto simp: transact_def split: prod.splits sum.splits dest: exec_keeps_consumed)

lemma run_keeps_consumed: "consumed s e n \<Longrightarrow> consumed (run s txs) e n"
  by (induction txs arbitrary: s) (auto intro: transact_keeps_consumed)

text \<open>What a successful call of an entry point has done.\<close>

lemma gateway_success:
  assumes "gateway env this v r sender call = Inr (res, v', r')"
  shows "carried env v r call = Inr (nullifier res)"
    and "\<not> consumed r (scope call) (nullifier res)"
    and "consumed r' (scope call) (nullifier res)"
    and "r' = transact r (this, t,
               if scope call = 0 then UseNullifier (nullifier res)
               else UseEventNullifier (scope call) (nullifier res))"
  using assms
  by (cases call;
      auto simp: verifyAgeWithNullifier_def verifyPassportDisclosure_def consumed_def
        isNullifierUsed_def isEventNullifierUsed_def useNullifier_def useEventNullifier_def
        transact_def
        split: sum.splits prod.splits if_splits)+

lemma gateway_conflict:
  assumes "consumed r (scope call) n" and "carried env v r call = Inr n"
  shows "\<exists>err. gateway env this v r sender call = Inl err \<and> state_conflict err"
  using assms
  by (cases call;
      auto simp: verifyAgeWithNullifier_def verifyPassportDisclosure_def consumed_def
        state_conflict_def
        split: sum.splits prod.splits if_splits)

lemma decode_age_proof:
  "decodeProof age_proof = Inr ((0, 0), ((0, 0), (0, 0)), (0, 0), [18, 0, 0, 0, 5, 6, 1, 9, 10])"
  by code_simp

lemma decode_true: "abi_decode_bool (abi_words [1]) = Inr True" "abi_words [1] \<noteq> []"
  by code_simp+

lemma accepting_ok: "verifyGroth16 accepting a pf = Inr True"
  by (simp add: verifyGroth16_def accepting_def decode_true)

lemma registry0_roots: "getRoots registry0 = (5, 6, 100)"
  by (simp add: registry0_def transact_def constructor_def updateRoots_def getRoots_def)

lemma age_checks0: "getRoots r = (5, 6, t) \<Longrightarrow> verifyAge_checks accepting gateway0 r 18 1 age_proof = Inr (9, 10)"
  by (simp add: verifyAge_checks_def decode_age_proof accepting_ok gateway0_def verifierConstructor_def)


lemmas run_eval = transact_def constructor_def updateRoots_def registerCredential_def
  revokeCredential_def useNullifier_def useEventNullifier_def

lemma gateway_frame:
  assumes "gateway env this v r sender call = Inr (res, v', r')" and "e2 \<noteq> scope call"
  shows "consumed r' e2 m = consumed r e2 m"
  using assms
  by (cases call;
      auto simp: verifyAgeWithNullifier_def verifyPassportDisclosure_def consumed_def
        isNullifierUsed_def isEventNullifierUsed_def useNullifier_def useEventNullifier_def
        split: sum.splits prod.splits if_splits)

text \<open>
  C6. Consuming a nullifier in one scope leaves every other scope as it was: a global
  consumption changes no event partition; a consumption in the partition of event \<open>e1\<close>
  changes neither the global partition nor the partition of any other event \<open>e2\<close>; and a
  successful call of an entry point in its scope leaves the consumption state of every
  nullifier \<open>m\<close> in every other scope \<open>e2\<close> unchanged.
\<close>

theorem scope_isolation:
  "(useNullifier s a n = Inr s' \<longrightarrow> eventNullifierUsed s' = eventNullifierUsed s)
   \<and> (useEventNullifier s a e1 n = Inr s'' \<longrightarrow>
        nullifierUsed s'' = nullifierUsed s
        \<and> (e2 \<noteq> e1 \<longrightarrow> eventNullifierUsed s'' e2 = eventNullifierUsed s e2))
   \<and> (gateway env this v r sender call = Inr (res, v', r') \<and> e2 \<noteq> scope call \<longrightarrow>
        consumed r' e2 m = consumed r e2 m)"
proof -
  have "useNullifier s a n = Inr s' \<longrightarrow> eventNullifierUsed s' = eventNullifierUsed s"
    by (auto simp: useNullifier_def split: if_splits)
  moreover have "useEventNullifier s a e1 n = Inr s'' \<longrightarrow>
        nullifierUsed s'' = nullifierUsed s
        \<and> (e2 \<noteq> e1 \<longrightarrow> eventNullifierUsed s'' e2 = eventNullifierUsed s e2)"
    by (auto simp: useEventNullifier_def split: if_splits)
  moreover have "gateway env this v r sender call = Inr (res, v', r') \<and> e2 \<noteq> scope call \<longrightarrow>
        consumed r' e2 m = consumed r e2 m"
    using gateway_frame by blast
  ultimately show ?thesis by blast
qed

theorem scope_isolation_witness:
  "(let s1 = projr (useNullifier registry0 3 9);
        s2 = projr (useEventNullifier registry0 3 1 9);
        out = gateway accepting 77 gateway0 registry0 3 (VerifyAge 18 1 age_proof)
    in \<not> isl (useNullifier registry0 3 9)
     \<and> eventNullifierUsed s1 = eventNullifierUsed registry0
     \<and> \<not> isl (useEventNullifier registry0 3 1 9)
     \<and> nullifierUsed s2 = nullifierUsed registry0
     \<and> eventNullifierUsed s2 2 = eventNullifierUsed registry0 2
     \<and> \<not> isl out
     \<and> consumed (snd (snd (projr out))) 2 9 = consumed registry0 2 9
     \<and> consumed (snd (snd (projr out))) 0 9 = consumed registry0 0 9
     \<and> consumed (snd (snd (projr out))) 1 9 \<noteq> consumed registry0 1 9)"
proof -
  define out where "out = gateway accepting 77 gateway0 registry0 3 (VerifyAge 18 1 age_proof)"
  have out: "out = Inr (\<lparr> valid = True, nullifier = 9, blindedCommitment = 10 \<rparr>,
                        gateway0\<lparr> verified := verified gateway0 @ [ProofVerified 3 0 9 1] \<rparr>,
                        transact registry0 (77, 0, UseEventNullifier 1 9))"
    unfolding out_def
    by (simp add: verifyAgeWithNullifier_def age_checks0 [OF registry0_roots]
          isEventNullifierUsed_def)
       (simp add: registry0_def run_eval)
  have g: "gateway accepting 77 gateway0 registry0 3 (VerifyAge 18 1 age_proof)
             = Inr (fst (projr out), fst (snd (projr out)), snd (snd (projr out)))"
    unfolding out_def [symmetric] by (simp add: out)
  have a: "useNullifier registry0 3 9 = Inr (projr (useNullifier registry0 3 9))"
    by (simp add: useNullifier_def registry0_def run_eval)
  have b: "useEventNullifier registry0 3 1 9 = Inr (projr (useEventNullifier registry0 3 1 9))"
    by (simp add: useEventNullifier_def registry0_def run_eval)
  have changed: "consumed (snd (snd (projr out))) 1 9 \<noteq> consumed registry0 1 9"
    unfolding out
    by (simp add: consumed_def isEventNullifierUsed_def registry0_def run_eval)
  have ok: "\<not> isl out" "\<not> isl (useNullifier registry0 3 9)"
      "\<not> isl (useEventNullifier registry0 3 1 9)"
    using out a b by (simp, metis sum.disc(2), metis sum.disc(2))
  from scope_isolation [of registry0 3 9 "projr (useNullifier registry0 3 9)" 1
         "projr (useEventNullifier registry0 3 1 9)" 2 accepting 77 gateway0 registry0 3
         "VerifyAge 18 1 age_proof" "fst (projr out)" "fst (snd (projr out))"
         "snd (snd (projr out))" 9]
       scope_isolation [of registry0 3 9 "projr (useNullifier registry0 3 9)" 1
         "projr (useEventNullifier registry0 3 1 9)" 0 accepting 77 gateway0 registry0 3
         "VerifyAge 18 1 age_proof" "fst (projr out)" "fst (snd (projr out))"
         "snd (snd (projr out))" 9]
       a b g changed ok
  show ?thesis
    unfolding Let_def out_def [symmetric] by simp
qed

text \<open>
  C3, as stated, fails: \<open>useNullifier\<close> and \<open>useEventNullifier\<close> carry no modifier. Two
  different callers holding no role (at most one of them can be the gateway) both write
  the ledger successfully.
\<close>

theorem ledger_write_by_anyone_counterexample:
  "\<not> authorizedIssuers registry0 3 \<and> \<not> authorizedUpdaters registry0 3 \<and> owner registry0 \<noteq> 3
   \<and> \<not> authorizedIssuers registry0 4 \<and> \<not> authorizedUpdaters registry0 4 \<and> owner registry0 \<noteq> 4
   \<and> \<not> isl (useNullifier registry0 3 9)
   \<and> isNullifierUsed (projr (useNullifier registry0 3 9)) 9
   \<and> \<not> isl (useNullifier registry0 4 9)
   \<and> isNullifierUsed (projr (useNullifier registry0 4 9)) 9
   \<and> \<not> isl (useEventNullifier registry0 3 12345 9)
   \<and> isEventNullifierUsed (projr (useEventNullifier registry0 3 12345 9)) 12345 9
   \<and> \<not> isl (useEventNullifier registry0 4 12345 9)
   \<and> isEventNullifierUsed (projr (useEventNullifier registry0 4 12345 9)) 12345 9"
  by (simp add: useNullifier_def useEventNullifier_def isNullifierUsed_def
        isEventNullifierUsed_def registry0_def run_eval)

text \<open>
  C3, amended. The write operations of the ledger check no caller: for every caller a write
  succeeds exactly when the nullifier is not yet marked in that partition, marking it and
  nothing else in the ledger; otherwise it reverts with a state conflict, never with an
  authorization failure, and the ledger stays as it was.
\<close>

theorem ledger_write_any_caller:
  "(case useNullifier s sender n of
      Inl e \<Rightarrow> nullifierUsed s n \<and> state_conflict e \<and> \<not> authorization_failure e
    | Inr s' \<Rightarrow> \<not> nullifierUsed s n
               \<and> nullifierUsed s' = (nullifierUsed s)(n := True)
               \<and> eventNullifierUsed s' = eventNullifierUsed s)
   \<and> (case useEventNullifier s sender eventId n of
      Inl e \<Rightarrow> eventNullifierUsed s eventId n \<and> state_conflict e \<and> \<not> authorization_failure e
    | Inr s' \<Rightarrow> \<not> eventNullifierUsed s eventId n
               \<and> eventNullifierUsed s' =
                   (eventNullifierUsed s)(eventId := (eventNullifierUsed s eventId)(n := True))
               \<and> nullifierUsed s' = nullifierUsed s)"
  by (simp add: useNullifier_def useEventNullifier_def state_conflict_def
        authorization_failure_def)

lemma decode_passport_proof:
  "decodeProof passport_proof
     = Inr ((0, 0), ((0, 0), (0, 0)), (0, 0), [5, 6, 1, 9, 10, 124, 18, 1])"
  by code_simp

lemma passport_checks0:
  "getRoots r = (5, 6, t) \<Longrightarrow>
   verifyPassport_checks accepting gateway0 r passport_proof = Inr (9, 10, 124, 18, 1)"
  by (simp add: verifyPassport_checks_def decode_passport_proof accepting_ok gateway0_def
        verifierConstructor_def)

text \<open>What a call that passed the checks has compared with the registry and the caller.\<close>

lemma age_checks_fresh:
  assumes "verifyAge_checks env v r minAge eventId proof = Inr out"
    and "decodeProof proof = Inr (a, b, c, publicInputs)"
  shows "publicInputs ! 4 = registryRoot (roots r)
       \<and> publicInputs ! 5 = revocationRoot (roots r)
       \<and> publicInputs ! 6 = eventId"
  using assms
  by (auto simp: verifyAge_checks_def getRoots_def split: if_splits sum.splits)

lemma age_stale_rejected:
  assumes "decodeProof proof = Inr (a, b, c, publicInputs)"
    and "publicInputs ! 4 \<noteq> registryRoot (roots r)
       \<or> publicInputs ! 5 \<noteq> revocationRoot (roots r)
       \<or> publicInputs ! 6 \<noteq> eventId"
  shows "isl (verifyAgeWithNullifier env this v r sender minAge eventId proof)"
proof (cases "verifyAge_checks env v r minAge eventId proof")
  case (Inl e)
  then show ?thesis by (simp add: verifyAgeWithNullifier_def)
next
  case (Inr out)
  from age_checks_fresh [OF Inr assms(1)] assms(2) show ?thesis by blast
qed

lemma age_stale_freshness_failure:
  assumes "ageVerifier v \<noteq> 0"
    and "decodeProof proof = Inr (a, b, c, publicInputs)"
    and "7 \<le> length publicInputs" and "ucast minAge \<le> publicInputs ! 0"
    and "publicInputs ! 4 \<noteq> registryRoot (roots r)
       \<or> publicInputs ! 5 \<noteq> revocationRoot (roots r)
       \<or> publicInputs ! 6 \<noteq> eventId"
  shows "\<exists>e. verifyAgeWithNullifier env this v r sender minAge eventId proof = Inl e
           \<and> freshness_failure e"
  using assms
  by (auto simp: verifyAgeWithNullifier_def verifyAge_checks_def getRoots_def
        freshness_failure_def)

lemma passport_checks_fresh:
  assumes "verifyPassport_checks env v r proof = Inr out"
    and "decodeProof proof = Inr (a, b, c, publicInputs)"
  shows "publicInputs ! 0 = registryRoot (roots r)
       \<and> publicInputs ! 1 = revocationRoot (roots r)"
  using assms
  by (auto simp: verifyPassport_checks_def getRoots_def split: if_splits sum.splits)

lemma age_scope_mismatch0:
  "verifyAgeWithNullifier accepting 77 gateway0 registry0 3 18 2 age_proof
     = Inl (Revert ''Event ID mismatch'')"
  by (simp add: verifyAgeWithNullifier_def verifyAge_checks_def decode_age_proof
        registry0_roots gateway0_def verifierConstructor_def)

lemma passport_any_scope0:
  "e \<noteq> 0 \<Longrightarrow>
   verifyPassportDisclosure accepting 77 gateway0 registry0 3 e passport_proof
     = Inr ((\<lparr> valid = True, nullifier = 9, blindedCommitment = 10 \<rparr>, 124, 18, 1),
            gateway0\<lparr> verified := verified gateway0 @ [ProofVerified 3 1 9 e] \<rparr>,
            transact registry0 (77, 0, UseEventNullifier e 9))"
  by (simp add: verifyPassportDisclosure_def passport_checks0 [OF registry0_roots]
        isEventNullifierUsed_def)
     (simp add: registry0_def run_eval)

text \<open>
  C2. \<open>verifyAgeWithNullifier\<close> rejects a statement whose roots or whose \<open>eventId\<close>
  differ (the lemmas above), and \<open>verifyPassportDisclosure\<close> rejects one whose roots differ;
  but \<open>verifyPassportDisclosure\<close> never compares its \<open>eventId\<close> argument with anything in
  the statement. One and the same valid passport proof is accepted under the scopes 1, 2
  and 3, consuming its nullifier in the partition of each, where the age entry point
  reverts with ``Event ID mismatch'' on a scope the statement does not carry.
\<close>

theorem passport_scope_unchecked:
  "\<not> isl (verifyPassportDisclosure accepting 77 gateway0 registry0 3 1 passport_proof)
   \<and> \<not> isl (verifyPassportDisclosure accepting 77 gateway0 registry0 3 2 passport_proof)
   \<and> isEventNullifierUsed
        (snd (snd (projr (verifyPassportDisclosure accepting 77 gateway0 registry0 3 2
                            passport_proof)))) 2 9
   \<and> \<not> isl (verifyPassportDisclosure accepting 77 gateway0 registry0 3 3 passport_proof)
   \<and> isEventNullifierUsed
        (snd (snd (projr (verifyPassportDisclosure accepting 77 gateway0 registry0 3 3
                            passport_proof)))) 3 9
   \<and> verifyAgeWithNullifier accepting 77 gateway0 registry0 3 18 2 age_proof
        = Inl (Revert ''Event ID mismatch'')"
  by (simp add: passport_any_scope0 age_scope_mismatch0 isEventNullifierUsed_def)
     (simp add: registry0_def run_eval)

lemma decode_empty_statement:
  "decodeProof (replicate 256 0) = Inr ((0, 0), ((0, 0), (0, 0)), (0, 0), [])"
  by code_simp

lemma verifyProofOnly_accepting:
  "decodeProof proof = Inr pf \<Longrightarrow> verifyProofOnly accepting a proof = Inr True"
  by (simp add: verifyProofOnly_def accepting_ok)

text \<open>
  C10, as stated, fails: \<open>verifyProofOnly\<close> answers true on proofs that the checks of the
  authoritative entry point reject for a stale root (step 3), for the minimum age (step 2)
  and for the number of public inputs (step 1).
\<close>

theorem verifyProofOnly_skips_checks_counterexample:
  "verifyProofOnly accepting 9 age_proof = Inr True
   \<and> verifyAge_checks accepting gateway0 (run registry0 [(1, 103, UpdateRoots 7 8)]) 18 1 age_proof
        = Inl (Revert ''Invalid registry root'')
   \<and> verifyAge_checks accepting gateway0 registry0 21 1 age_proof
        = Inl (Revert ''Age below minimum'')
   \<and> verifyProofOnly accepting 9 (replicate 256 0) = Inr True
   \<and> verifyAge_checks accepting gateway0 registry0 18 1 (replicate 256 0)
        = Inl (Revert ''Invalid public inputs'')"
proof -
  have "verifyAge_checks accepting gateway0 (run registry0 [(1, 103, UpdateRoots 7 8)]) 18 1
          age_proof = Inl (Revert ''Invalid registry root'')"
    by (simp add: verifyAge_checks_def decode_age_proof gateway0_def verifierConstructor_def
          getRoots_def registry0_def run_eval)
  moreover have "verifyAge_checks accepting gateway0 registry0 21 1 age_proof
        = Inl (Revert ''Age below minimum'')"
    by (simp add: verifyAge_checks_def decode_age_proof gateway0_def verifierConstructor_def)
  moreover have "verifyAge_checks accepting gateway0 registry0 18 1 (replicate 256 0)
        = Inl (Revert ''Invalid public inputs'')"
    by (simp add: verifyAge_checks_def decode_empty_statement gateway0_def
          verifierConstructor_def)
  ultimately show ?thesis
    by (simp add: verifyProofOnly_accepting [OF decode_age_proof]
          verifyProofOnly_accepting [OF decode_empty_statement])
qed

text \<open>
  C10, amended. \<open>verifyProofOnly\<close> decodes the proof, rejecting fewer than 256 bytes, and
  asks the oracle, and that is all: it answers true exactly when the decoded proof is
  accepted by the oracle, so it accepts every proof that passes the checks of an
  authoritative entry point (and, by the counterexample, more). It is a \<open>view\<close> function,
  in both contracts: it has no access to the ledger and returns no storage, so it consumes
  no nullifier and changes no state.
\<close>

theorem verifyProofOnly_oracle_only:
  "(verifyProofOnly env verifier blob = Inr True \<longleftrightarrow>
      256 \<le> length blob
      \<and> (\<exists>pf. decodeProof blob = Inr pf \<and> verifyGroth16 env verifier pf = Inr True))
   \<and> (verifyAge_checks env v r minAge eventId blob = Inr out \<longrightarrow>
        verifyProofOnly env (ageVerifier v) blob = Inr True)
   \<and> (verifyPassport_checks env v r blob = Inr out' \<longrightarrow>
        verifyProofOnly env (passportVerifier v) blob = Inr True)
   \<and> (verifyAgeProof zk s pA pB pC pubSignals = Inr (True, s') \<longrightarrow>
        ageVerifyProofOnly zk pA pB pC pubSignals = Inr True)"
proof -
  have "verifyProofOnly env verifier blob = Inr True \<longleftrightarrow>
      256 \<le> length blob
      \<and> (\<exists>pf. decodeProof blob = Inr pf \<and> verifyGroth16 env verifier pf = Inr True)"
    by (auto simp: verifyProofOnly_def decodeProof_def Let_def split: sum.splits if_splits)
  moreover have "verifyAge_checks env v r minAge eventId blob = Inr out \<longrightarrow>
        verifyProofOnly env (ageVerifier v) blob = Inr True"
    by (auto simp: verifyAge_checks_def verifyProofOnly_def
          split: sum.splits if_splits prod.splits)
  moreover have "verifyPassport_checks env v r blob = Inr out' \<longrightarrow>
        verifyProofOnly env (passportVerifier v) blob = Inr True"
    by (auto simp: verifyPassport_checks_def verifyProofOnly_def
          split: sum.splits if_splits prod.splits)
  moreover have "verifyAgeProof zk s pA pB pC pubSignals = Inr (True, s') \<longrightarrow>
        ageVerifyProofOnly zk pA pB pC pubSignals = Inr True"
    by (auto simp: verifyAgeProof_def ageVerifyProofOnly_def Let_def split: if_splits)
  ultimately show ?thesis by blast
qed

theorem verifyProofOnly_oracle_only_witness:
  "verifyAge_checks accepting gateway0 registry0 18 1 age_proof = Inr (9, 10)
   \<and> verifyProofOnly accepting (ageVerifier gateway0) age_proof = Inr True
   \<and> 256 \<le> length age_proof
   \<and> verifyPassport_checks accepting gateway0 registry0 passport_proof = Inr (9, 10, 124, 18, 1)
   \<and> verifyProofOnly accepting (passportVerifier gateway0) passport_proof = Inr True
   \<and> \<not> isl (verifyAgeProof (\<lambda>_ _ _ _. True)
               \<lparr> ageNullifierUsed = (\<lambda>_. False), registeredCredentials = (\<lambda>_. False),
                 ageEmitted = [] \<rparr>
               (0, 0) ((0, 0), (0, 0)) (0, 0) [10, 9, 1, 2026, 11, 3, 18, 1])
   \<and> ageVerifyProofOnly (\<lambda>_ _ _ _. True) (0, 0) ((0, 0), (0, 0)) (0, 0)
         [10, 9, 1, 2026, 11, 3, 18, 1] = Inr True"
proof -
  define s0 where "s0 = \<lparr> ageNullifierUsed = (\<lambda>_. False), registeredCredentials = (\<lambda>_. False),
                           ageEmitted = [] \<rparr>"
  define sig :: "uint256 list" where "sig = [10, 9, 1, 2026, 11, 3, 18, 1]"
  define g :: groth16Verifier where "g = (\<lambda>_ _ _ _. True)"
  define res where "res = verifyAgeProof g s0 (0, 0) ((0, 0), (0, 0)) (0, 0) sig"
  have a: "verifyAge_checks accepting gateway0 registry0 18 1 age_proof = Inr (9, 10)"
    by (rule age_checks0 [OF registry0_roots])
  have p: "verifyPassport_checks accepting gateway0 registry0 passport_proof
             = Inr (9, 10, 124, 18, 1)"
    by (rule passport_checks0 [OF registry0_roots])
  have ok: "\<not> isl res"
    unfolding res_def by (simp add: verifyAgeProof_def s0_def sig_def g_def Let_def)
  have "fst (projr res)"
    unfolding res_def by (simp add: verifyAgeProof_def s0_def sig_def g_def Let_def)
  with ok have r: "verifyAgeProof g s0 (0, 0) ((0, 0), (0, 0)) (0, 0) sig
                     = Inr (True, snd (projr res))"
    unfolding res_def [symmetric] by (cases res) auto
  note t1 = verifyProofOnly_oracle_only [where env = accepting and verifier = "ageVerifier gateway0"
      and blob = age_proof and v = gateway0 and r = registry0 and minAge = 18 and eventId = 1
      and out = "(9, 10)" and zk = g and s = s0 and pA = "(0, 0)"
      and pB = "((0, 0), (0, 0))" and pC = "(0, 0)" and pubSignals = sig
      and s' = "snd (projr res)"]
  note t2 = verifyProofOnly_oracle_only [where env = accepting
      and verifier = "passportVerifier gateway0" and blob = passport_proof and v = gateway0
      and r = registry0 and out' = "(9, 10, 124, 18, 1)"]
  from t1 a r have "verifyProofOnly accepting (ageVerifier gateway0) age_proof = Inr True"
     "256 \<le> length age_proof"
     "ageVerifyProofOnly g (0, 0) ((0, 0), (0, 0)) (0, 0) sig = Inr True"
    by blast+
  moreover from t2 p
  have "verifyProofOnly accepting (passportVerifier gateway0) passport_proof = Inr True"
    by blast
  ultimately show ?thesis
    using a p ok unfolding res_def s0_def sig_def g_def by simp
qed

section \<open>Properties of the circuits\<close>

lemma FIELD_PRIME_gt1: "1 < FIELD_PRIME"
  by (simp add: FIELD_PRIME_def)

lemma IsZero_cases: "IsZero x = 0 \<or> IsZero x = 1"
  by (simp add: IsZero_def)



lemma valid_product:
  assumes "rc = 0 \<or> rc = 1" and "kn = 0 \<or> kn = 1"
  shows "fmul rc (fadd t (fmul (fsub 1 t) (fsub 1 kn))) = 1
         \<longleftrightarrow> rc = 1 \<and> (t mod FIELD_PRIME = 1 \<or> kn = 0)"
proof -
  have p: "1 < FIELD_PRIME" by (rule FIELD_PRIME_gt1)
  have one: "(1 :: int) mod FIELD_PRIME = 1" using p by simp
  have a: "fadd t (fmul (fsub 1 t) (fsub 1 0)) = 1"
    by (simp add: fadd_def fmul_def fsub_def mod_simps one)
  have b: "fadd t (fmul (fsub 1 t) (fsub 1 1)) = t mod FIELD_PRIME"
    by (simp add: fadd_def fmul_def fsub_def mod_simps)
  have zero: "fmul 0 x = 0" and unit: "fmul 1 x = x mod FIELD_PRIME" for x
    by (simp_all add: fmul_def)
  from assms(1) show ?thesis
  proof
    assume "rc = 0"
    then show ?thesis by (simp add: zero)
  next
    assume rc: "rc = 1"
    from assms(2) show ?thesis
    proof
      assume "kn = 0"
      then show ?thesis by (simp add: rc a unit one)
    next
      assume "kn = 1"
      then show ?thesis by (simp add: rc b unit)
    qed
  qed
qed


text \<open>
  When the verifier outputs 1: the key fits in \<open>levels\<close> bits, the root recomputed from the
  multiplexed leaf along the bits of the key is the claimed root, and the flag is 1 or the
  occupant key differs from the key.
\<close>

lemma smt_valid_iff:
  "SparseMerkleTreeNonInclusion H levels key root siblings isOld0 oldKey oldValue = Some 1
   \<longleftrightarrow> length siblings = levels
       \<and> (\<exists>keyBits computed.
            Num2Bits levels key = Some keyBits
            \<and> MerkleTreeInclusionProof H (Mux1 (H [oldKey, oldValue]) 0 isOld0) siblings keyBits
                = Some computed
            \<and> IsEqual computed root = 1
            \<and> (isOld0 mod FIELD_PRIME = 1 \<or> IsEqual key oldKey = 0))"
  using valid_product [OF IsZero_cases IsZero_cases]
  by (auto simp: SparseMerkleTreeNonInclusion_def IsEqual_def Let_def split: option.splits)

text \<open>
  C8. The output is 1 in the cases the claim names (the lemma above), but it is not 0 in
  all the others: \<open>isOld0\<close> is never constrained to be 0 or 1, unlike the path indices of
  \<open>MerkleTreeInclusionProof\<close>. With \<open>isOld0 = 2\<close>, the occupant key equal to the key and a
  matching root, the output is 2. And as the leaf is \<open>(1 - isOld0) * H(oldKey, oldValue)\<close>,
  a flag that is neither 0 nor 1 makes the leaf any value: for key 1, present with value 5
  in the tree of the second conjunct, the verifier outputs 1 on an occupant \<open>(2, 0)\<close> that
  is not at that path, the root recomputed from the occupant's leaf and from the empty leaf
  both differing from the claimed root. The tree has 20 levels, every sibling is 3, and
  \<open>toy_hash\<close> stands for the hash.
\<close>

theorem smt_flag_unconstrained:
  "SparseMerkleTreeNonInclusion toy_hash 20 1 2093385970449140272409399203659
      (replicate 20 3) 2 1 5 = Some 2
   \<and> MerkleTreeInclusionProof toy_hash (toy_hash [1, 5]) (replicate 20 3) (1 # replicate 19 0)
       = Some 55013143111616847779901664787841
   \<and> SparseMerkleTreeNonInclusion toy_hash 20 1 55013143111616847779901664787841
        (replicate 20 3)
        18886727610344073888642447940574842017063384197953210067216734326187305486194 2 0
       = Some 1
   \<and> MerkleTreeInclusionProof toy_hash (toy_hash [2, 0]) (replicate 20 3) (1 # replicate 19 0)
       \<noteq> Some 55013143111616847779901664787841
   \<and> MerkleTreeInclusionProof toy_hash 0 (replicate 20 3) (1 # replicate 19 0)
       \<noteq> Some 55013143111616847779901664787841"
  by code_simp

section \<open>The gateway across registries\<close>

lemma gateway_keeps_consumed:
  assumes "gateway env this v r sender call = Inr (res, v', r')" and "consumed r e n"
  shows "consumed r' e n"
proof -
  from gateway_success(4) [OF assms(1), of 0]
  have "r' = transact r (this, 0,
               if scope call = 0 then UseNullifier (nullifier res)
               else UseEventNullifier (scope call) (nullifier res))" .
  with assms(2) show ?thesis
    by (simp only: transact_keeps_consumed)
qed

lemma world_step_keeps_marked:
  "marked_at w a e n \<Longrightarrow> marked_at (world_step this w tx) a e n"
proof (cases tx)
  case (Verify env sender call)
  assume m: "marked_at w a e n"
  show ?thesis
  proof (cases "gateway_in env this w sender call")
    case (Inl err)
    with Verify m show ?thesis by simp
  next
    case (Inr out)
    obtain res w' where out: "out = (res, w')" by (cases out)
    from Inr out obtain r v' r' where
      r: "registryAt w (registry (gatewayStorage w)) = Some r"
      and g: "gateway env this (gatewayStorage w) r sender call = Inr (res, v', r')"
      and w': "w' = w\<lparr> gatewayStorage := v',
                         registryAt := (registryAt w)(registry (gatewayStorage w) \<mapsto> r') \<rparr>"
      by (auto simp: gateway_in_def split: option.splits sum.splits)
    have "marked_at w' a e n"
    proof (cases "a = registry (gatewayStorage w)")
      case True
      with m r have "consumed r e n" by (simp add: marked_at_def)
      from gateway_keeps_consumed [OF g this] True w' show ?thesis
        by (simp add: marked_at_def)
    next
      case False
      with m w' show ?thesis by (simp add: marked_at_def)
    qed
    with Verify Inr out show ?thesis by simp
  qed
qed (auto simp: marked_at_def transact_keeps_consumed split: option.splits sum.splits)

lemma world_run_keeps_marked:
  "marked_at w a e n \<Longrightarrow> marked_at (world_run this w txs) a e n"
  by (induction txs arbitrary: w) (auto intro: world_step_keeps_marked)

lemma gateway_in_marks:
  assumes "gateway_in env this w sender call = Inr (res, w')"
  shows "marked_at w' (registry (gatewayStorage w)) (scope call) (nullifier res)"
proof -
  from assms obtain r v' r' where
    g: "gateway env this (gatewayStorage w) r sender call = Inr (res, v', r')"
    and w': "w' = w\<lparr> gatewayStorage := v',
                       registryAt := (registryAt w)(registry (gatewayStorage w) \<mapsto> r') \<rparr>"
    by (auto simp: gateway_in_def split: option.splits sum.splits)
  from gateway_success(3) [OF g] w' show ?thesis
    by (simp add: marked_at_def)
qed

text \<open>
  C1, amended. Consumption is per registry. Once a call of an entry point has succeeded,
  consuming the nullifier \<open>N\<close> of its result in its scope in the ledger of the registry the
  gateway pointed to, no later call in that scope made while the gateway points to that
  same registry succeeds with \<open>N\<close>: whatever transactions the world has seen in between
  (deployments, calls of any registry by any caller, admin calls of the gateway,
  \<open>setRegistry\<close> away and back among them, other verifications) and whichever entry point,
  caller and oracle the later call has. Such a later call that passes its checks carrying
  \<open>N\<close> reverts with a state conflict (one that fails an earlier check reverts there), and
  a reverted call leaves the world as it was.
\<close>

theorem nullifier_single_use_per_registry:
  assumes first: "gateway_in env this w sender call = Inr (res, w')"
    and same_registry:
      "registry (gatewayStorage (world_run this w' txs)) = registry (gatewayStorage w)"
    and same_scope: "scope later_call = scope call"
  shows "case gateway_in later_env this (world_run this w' txs) later_sender later_call of
           Inr (later_res, _) \<Rightarrow> nullifier later_res \<noteq> nullifier res
         | Inl err \<Rightarrow>
             (carried_in later_env (world_run this w' txs) later_call = Inr (nullifier res)
                \<longrightarrow> state_conflict err)"
proof -
  define w2 where "w2 = world_run this w' txs"
  define a where "a = registry (gatewayStorage w)"
  have "marked_at w2 a (scope call) (nullifier res)"
    unfolding w2_def a_def by (rule world_run_keeps_marked [OF gateway_in_marks [OF first]])
  with same_registry same_scope obtain r where
    r: "registryAt w2 (registry (gatewayStorage w2)) = Some r"
    and used: "consumed r (scope later_call) (nullifier res)"
    unfolding w2_def a_def by (auto simp: marked_at_def split: option.splits)
  show ?thesis
    unfolding w2_def [symmetric]
  proof (cases "gateway_in later_env this w2 later_sender later_call")
    case (Inl err)
    show "case gateway_in later_env this w2 later_sender later_call of
           Inr (later_res, _) \<Rightarrow> nullifier later_res \<noteq> nullifier res
         | Inl err \<Rightarrow>
             (carried_in later_env w2 later_call = Inr (nullifier res) \<longrightarrow> state_conflict err)"
    proof (cases "carried_in later_env w2 later_call = Inr (nullifier res)")
      case True
      with r have "carried later_env (gatewayStorage w2) r later_call = Inr (nullifier res)"
        by (simp add: carried_in_def)
      from gateway_conflict [OF used this, of this later_sender] Inl r show ?thesis
        by (auto simp: gateway_in_def)
    next
      case False
      with Inl show ?thesis by simp
    qed
  next
    case (Inr out)
    obtain res2 w3 where out: "out = (res2, w3)" by (cases out)
    from Inr out r obtain v3 r3 where
      "gateway later_env this (gatewayStorage w2) r later_sender later_call = Inr (res2, v3, r3)"
      by (auto simp: gateway_in_def split: sum.splits)
    from gateway_success(2) [OF this] used have "nullifier res2 \<noteq> nullifier res"
      by auto
    with Inr out
    show "case gateway_in later_env this w2 later_sender later_call of
           Inr (later_res, _) \<Rightarrow> nullifier later_res \<noteq> nullifier res
         | Inl err \<Rightarrow>
             (carried_in later_env w2 later_call = Inr (nullifier res) \<longrightarrow> state_conflict err)"
      by simp
  qed
qed

lemma age_checks_at:
  "ageVerifier v = 9 \<Longrightarrow> getRoots r = (5, 6, t) \<Longrightarrow>
   verifyAge_checks accepting v r 18 1 age_proof = Inr (9, 10)"
  by (simp add: verifyAge_checks_def decode_age_proof accepting_ok)

lemma age_call_fresh:
  assumes "ageVerifier v = 9" and "getRoots r = (5, 6, t)" and "\<not> eventNullifierUsed r 1 9"
  shows "verifyAgeWithNullifier accepting this v r sender 18 1 age_proof
           = Inr (\<lparr> valid = True, nullifier = 9, blindedCommitment = 10 \<rparr>,
                  v\<lparr> verified := verified v @ [ProofVerified sender 0 9 1] \<rparr>,
                  r\<lparr> eventNullifierUsed :=
                       (eventNullifierUsed r)(1 := (eventNullifierUsed r 1)(9 := True)),
                     emitted := emitted r @ [EventNullifierUsed 1 9 this] \<rparr>)"
  using assms(3)
  by (simp add: verifyAgeWithNullifier_def age_checks_at [OF assms(1,2)]
        isEventNullifierUsed_def useEventNullifier_def)

lemma age_call_used:
  assumes "ageVerifier v = 9" and "getRoots r = (5, 6, t)" and "eventNullifierUsed r 1 9"
  shows "verifyAgeWithNullifier accepting this v r sender 18 1 age_proof
           = Inl (Revert ''Nullifier already used for event'')"
  using assms(3)
  by (simp add: verifyAgeWithNullifier_def age_checks_at [OF assms(1,2)]
        isEventNullifierUsed_def)

lemma gateway0_fields:
  "ageVerifier gateway0 = 9" "registry gateway0 = 50" "verifierOwner gateway0 = 1"
  by (simp_all add: gateway0_def verifierConstructor_def)

lemma registry0_fresh: "\<not> eventNullifierUsed registry0 e n"
  by (simp add: registry0_def run_eval)

lemma world0_fields:
  "gatewayStorage world0 = gateway0" "registryAt world0 50 = Some registry0"
  "registryAt world0 51 = Some registry0"
  by (simp_all add: world0_def)

lemma first_call_world0:
  "gateway_in accepting 77 world0 3 (VerifyAge 18 1 age_proof)
     = Inr (\<lparr> valid = True, nullifier = 9, blindedCommitment = 10 \<rparr>,
            world0\<lparr> gatewayStorage :=
                      gateway0\<lparr> verified := verified gateway0 @ [ProofVerified 3 0 9 1] \<rparr>,
                    registryAt := (registryAt world0)
                      (50 \<mapsto> registry0\<lparr> eventNullifierUsed :=
                               (eventNullifierUsed registry0)
                                 (1 := (eventNullifierUsed registry0 1)(9 := True)),
                             emitted := emitted registry0 @ [EventNullifierUsed 1 9 77] \<rparr>) \<rparr>)"
  by (simp add: gateway_in_def world0_fields gateway0_fields
        age_call_fresh [OF gateway0_fields(1) registry0_roots registry0_fresh])

text \<open>
  C1, as stated, fails: the ledger the gateway consults is the one of the registry its
  \<open>registry\<close> field names, and the owner can change the field. The same age proof, with
  nullifier 9 in scope 1, succeeds once while the gateway points to the registry at
  address 50 and, after \<open>setRegistry(51)\<close>, once more.
\<close>

theorem nullifier_reused_after_setRegistry_counterexample:
  "\<not> isl (gateway_in accepting 77 world0 3 (VerifyAge 18 1 age_proof))
   \<and> nullifier (fst (projr (gateway_in accepting 77 world0 3 (VerifyAge 18 1 age_proof)))) = 9
   \<and> \<not> isl (gateway_in accepting 77
               (world_run 77
                  (snd (projr (gateway_in accepting 77 world0 3 (VerifyAge 18 1 age_proof))))
                  [SetRegistry 1 51])
               3 (VerifyAge 18 1 age_proof))
   \<and> nullifier (fst (projr (gateway_in accepting 77
               (world_run 77
                  (snd (projr (gateway_in accepting 77 world0 3 (VerifyAge 18 1 age_proof))))
                  [SetRegistry 1 51])
               3 (VerifyAge 18 1 age_proof)))) = 9"
proof -
  define g1 where "g1 = gateway0\<lparr> verified := verified gateway0 @ [ProofVerified 3 0 9 1] \<rparr>"
  define w2 where "w2 = world_run 77
      (snd (projr (gateway_in accepting 77 world0 3 (VerifyAge 18 1 age_proof))))
      [SetRegistry 1 51]"
  have g1: "ageVerifier (g1\<lparr> registry := 51 \<rparr>) = 9"
    by (simp add: g1_def gateway0_fields)
  have w2: "gatewayStorage w2 = g1\<lparr> registry := 51 \<rparr>" "registryAt w2 51 = Some registry0"
    unfolding w2_def first_call_world0
    by (simp_all add: setRegistry_def gateway0_fields world0_fields g1_def)
  have second: "gateway_in accepting 77 w2 3 (VerifyAge 18 1 age_proof)
      = Inr (\<lparr> valid = True, nullifier = 9, blindedCommitment = 10 \<rparr>,
             w2\<lparr> gatewayStorage :=
                    (g1\<lparr> registry := 51 \<rparr>)
                      \<lparr> verified := verified (g1\<lparr> registry := 51 \<rparr>) @ [ProofVerified 3 0 9 1] \<rparr>,
                  registryAt := (registryAt w2)
                    (51 \<mapsto> registry0\<lparr> eventNullifierUsed :=
                             (eventNullifierUsed registry0)
                               (1 := (eventNullifierUsed registry0 1)(9 := True)),
                           emitted := emitted registry0 @ [EventNullifierUsed 1 9 77] \<rparr>) \<rparr>)"
    by (simp add: gateway_in_def w2 age_call_fresh [OF g1 registry0_roots registry0_fresh])
  show ?thesis
    unfolding w2_def [symmetric] by (simp add: first_call_world0 second)
qed

theorem nullifier_single_use_per_registry_witness:
  "(let call = VerifyAge 18 1 age_proof;
        w' = snd (projr (gateway_in accepting 77 world0 3 call));
        txs = [SetRegistry 1 51, ToRegistry 50 1 101 (RegisterCredential 4), SetRegistry 1 50];
        later = world_run 77 w' txs
    in \<not> isl (gateway_in accepting 77 world0 3 call)
     \<and> nullifier (fst (projr (gateway_in accepting 77 world0 3 call))) = 9
     \<and> registry (gatewayStorage later) = registry (gatewayStorage world0)
     \<and> carried_in accepting later call = Inr 9
     \<and> gateway_in accepting 77 later 3 call = Inl (Revert ''Nullifier already used for event'')
     \<and> state_conflict (Revert ''Nullifier already used for event''))"
proof -
  define call where "call = VerifyAge 18 1 age_proof"
  define out where "out = gateway_in accepting 77 world0 3 call"
  define txs where
    "txs = [SetRegistry 1 51, ToRegistry 50 1 101 (RegisterCredential 4), SetRegistry 1 50]"
  define later where "later = world_run 77 (snd (projr out)) txs"
  define g1 where "g1 = gateway0\<lparr> verified := verified gateway0 @ [ProofVerified 3 0 9 1] \<rparr>"
  define r1 where "r1 = registry0\<lparr> eventNullifierUsed :=
                               (eventNullifierUsed registry0)
                                 (1 := (eventNullifierUsed registry0 1)(9 := True)),
                             emitted := emitted registry0 @ [EventNullifierUsed 1 9 77] \<rparr>"
  have out: "out = Inr (\<lparr> valid = True, nullifier = 9, blindedCommitment = 10 \<rparr>,
                        world0\<lparr> gatewayStorage := g1,
                                registryAt := (registryAt world0)(50 \<mapsto> r1) \<rparr>)"
    unfolding out_def call_def g1_def r1_def by (rule first_call_world0)
  have l1: "gatewayStorage later = g1\<lparr> registry := 50 \<rparr>"
    unfolding later_def txs_def out
    by (simp add: setRegistry_def g1_def gateway0_fields split: option.splits)
  have l2: "registryAt later 50 = Some (transact r1 (1, 101, RegisterCredential 4))"
    unfolding later_def txs_def out
    by (simp add: setRegistry_def g1_def gateway0_fields)
  have reg: "registry (gatewayStorage later) = registry (gatewayStorage world0)"
    by (simp add: l1 world0_fields gateway0_fields)
  have av: "ageVerifier (g1\<lparr> registry := 50 \<rparr>) = 9"
    by (simp add: g1_def gateway0_fields)
  have roots: "getRoots (transact r1 (1, 101, RegisterCredential 4)) = (5, 6, 100)"
    by (simp add: r1_def registry0_def run_eval getRoots_def)
  have used: "eventNullifierUsed (transact r1 (1, 101, RegisterCredential 4)) 1 9"
    by (simp add: r1_def registry0_def run_eval)
  have c: "carried_in accepting later call = Inr 9"
    unfolding call_def by (simp add: carried_in_def l1 l2 age_checks_at [OF av roots])
  have second: "gateway_in accepting 77 later 3 call
                  = Inl (Revert ''Nullifier already used for event'')"
    unfolding call_def by (simp add: gateway_in_def l1 l2 age_call_used [OF av roots used])
  have first: "gateway_in accepting 77 world0 3 call = Inr (fst (projr out), snd (projr out))"
    unfolding out_def [symmetric] by (simp add: out)
  have n: "nullifier (fst (projr out)) = 9"
    by (simp add: out)
  have reg': "registry (gatewayStorage (world_run 77 (snd (projr out)) txs))
                = registry (gatewayStorage world0)"
    using reg unfolding later_def .
  from nullifier_single_use_per_registry [OF first reg', where later_call = call
         and later_env = accepting and later_sender = 3]
  have "state_conflict (Revert ''Nullifier already used for event'')"
    unfolding later_def [symmetric] using c second n by simp
  with n c second reg out show ?thesis
    unfolding Let_def later_def out_def call_def txs_def by simp
qed









end
